theory Spec2Isabelle
  imports Main "HOL-Library.Sublist" "HOL-Library.AList"
begin

section \<open>Texts\<close>

text \<open>
  A document text is a Python \<^verbatim>\<open>str\<close>. It is modelled as a \<^typ>\<open>string\<close> whose
  characters are read as the code points U+0000 .. U+00FF, so that \<^const>\<open>length\<close> is
  Python's \<^verbatim>\<open>len\<close>. The character classes below are the ones of Python 3 on that range.
\<close>

definition code_point :: "char \<Rightarrow> nat" where
  "code_point c = of_char c"

text \<open>\<^verbatim>\<open>str.lower()\<close>: A-Z and the capital letters U+00C0 .. U+00DE (not the
  multiplication sign U+00D7) move up by 32; every other character stays.\<close>

definition lower_char :: "char \<Rightarrow> char" where
  "lower_char c =
     (let n = code_point c in
      if (65 \<le> n \<and> n \<le> 90) \<or> (192 \<le> n \<and> n \<le> 222 \<and> n \<noteq> 215)
      then char_of (n + 32) else c)"

definition py_lower :: "string \<Rightarrow> string" where
  "py_lower s = map lower_char s"

text \<open>\<^verbatim>\<open>str.isspace()\<close> on one character, which is also the class \<^verbatim>\<open>\s\<close>.\<close>

definition is_space :: "char \<Rightarrow> bool" where
  "is_space c =
     (let n = code_point c in
      (9 \<le> n \<and> n \<le> 13) \<or> (28 \<le> n \<and> n \<le> 32) \<or> n = 133 \<or> n = 160)"

text \<open>\<^verbatim>\<open>str.strip()\<close> without argument.\<close>

definition py_strip :: "string \<Rightarrow> string" where
  "py_strip s = rev (dropWhile is_space (rev (dropWhile is_space s)))"

text \<open>\<^verbatim>\<open>sep.join(xs)\<close>.\<close>

fun py_join :: "string \<Rightarrow> string list \<Rightarrow> string" where
  "py_join sep [] = []"
| "py_join sep [x] = x"
| "py_join sep (x # y # ys) = x @ sep @ py_join sep (y # ys)"

text \<open>
  The test \<^verbatim>\<open>w in t\<close> on two strings holds when \<^verbatim>\<open>w\<close> is a contiguous part of
  \<^verbatim>\<open>t\<close>; this is \<^term>\<open>sublist w t\<close>.

  \<^verbatim>\<open>list(set(xs))\<close> lists the distinct elements of \<^verbatim>\<open>xs\<close> in the iteration order of
  the hash set, which the program does not fix. The order is a parameter \<open>ord\<close> of every
  function that builds such a list, and \<open>set_order ord\<close> says what is known of it.
\<close>

definition set_order :: "(string list \<Rightarrow> string list) \<Rightarrow> bool" where
  "set_order ord = (\<forall>xs. distinct (ord xs) \<and> set (ord xs) = set xs)"

section \<open>The linguistic model\<close>

text \<open>
  \<^verbatim>\<open>nlp\<close> is \<^verbatim>\<open>None\<close> (fallback mode) or the loaded pipeline, a function from a text to
  its analysed document. A document is its sentences (\<^verbatim>\<open>doc.sents\<close>), each a span of
  tokens, and its entity spans (\<^verbatim>\<open>doc.ents\<close>), each a label with a text. A token has
  its text, the whitespace that follows it, and the two flags \<^verbatim>\<open>is_alpha\<close> and
  \<^verbatim>\<open>is_stop\<close>. The pipeline itself is outside the program and stays a parameter;
  \<^verbatim>\<open>process_text(text)\<close> is the cached call \<^verbatim>\<open>nlp(text)\<close>.
\<close>

record token =
  tok_text :: string
  tok_ws :: string
  is_alpha :: bool
  is_stop :: bool

record doc =
  doc_sents :: "token list list"
  doc_ents :: "(string \<times> string) list"

type_synonym nlp = "(string \<Rightarrow> doc) option"

text \<open>Iterating over a document yields the tokens of its sentences in order.\<close>

definition doc_tokens :: "doc \<Rightarrow> token list" where
  "doc_tokens d = concat (doc_sents d)"

text \<open>\<^verbatim>\<open>len(span)\<close> is the number of tokens of the span; \<^verbatim>\<open>str(span)\<close> is its text,
  without the whitespace after the last token.\<close>

definition span_len :: "token list \<Rightarrow> nat" where
  "span_len sp = length sp"

definition span_str :: "token list \<Rightarrow> string" where
  "span_str sp =
     (case sp of [] \<Rightarrow> []
      | _ \<Rightarrow> concat (map (\<lambda>t. tok_text t @ tok_ws t) (butlast sp)) @ tok_text (last sp))"

section \<open>Compliance checker\<close>

definition check_compliance :: "string \<Rightarrow> string list" where
  "check_compliance text =
     (let compliance_issues = [];
          text_lower = py_lower text;
          compliance_issues =
            (if \<not> sublist ''governing law'' text_lower \<and> \<not> sublist ''jurisdiction'' text_lower
             then compliance_issues @ [''Missing governing law or jurisdiction clause'']
             else compliance_issues);
          compliance_issues =
            (if \<not> sublist ''termination'' text_lower
             then compliance_issues @ [''No termination clause found'']
             else compliance_issues);
          compliance_issues =
            (if \<not> sublist ''confidential'' text_lower \<and> \<not> sublist ''proprietary'' text_lower
             then compliance_issues @ [''No confidentiality or proprietary information clause'']
             else compliance_issues);
          compliance_issues =
            (if \<not> sublist ''liability'' text_lower
             then compliance_issues @ [''Liability terms not clearly defined'']
             else compliance_issues);
          compliance_issues =
            (if \<not> sublist ''signature'' text_lower \<and> \<not> sublist ''signed'' text_lower
             then compliance_issues @ [''Document may lack proper signature requirements'']
             else compliance_issues)
      in compliance_issues)"

text \<open>
  The specification's reading of the checker: five rules in a fixed order, each a
  condition on the lowercased text with its message; the result lists the messages of
  the rules whose condition holds.
\<close>

definition compliance_rules :: "((string \<Rightarrow> bool) \<times> string) list" where
  "compliance_rules =
     [(\<lambda>t. \<not> sublist ''governing law'' t \<and> \<not> sublist ''jurisdiction'' t,
       ''Missing governing law or jurisdiction clause''),
      (\<lambda>t. \<not> sublist ''termination'' t,
       ''No termination clause found''),
      (\<lambda>t. \<not> sublist ''confidential'' t \<and> \<not> sublist ''proprietary'' t,
       ''No confidentiality or proprietary information clause''),
      (\<lambda>t. \<not> sublist ''liability'' t,
       ''Liability terms not clearly defined''),
      (\<lambda>t. \<not> sublist ''signature'' t \<and> \<not> sublist ''signed'' t,
       ''Document may lack proper signature requirements'')]"

definition check_compliance_spec :: "string \<Rightarrow> string list" where
  "check_compliance_spec text =
     map snd (filter (\<lambda>(cond, msg). cond (py_lower text)) compliance_rules)"

section \<open>Risk detector\<close>

definition RISK_WORDS :: "string list" where
  "RISK_WORDS =
     [''fraud'', ''penalty'', ''violation'', ''risk'', ''lawsuit'', ''breach'',
      ''noncompliance'', ''litigation'', ''regulatory'', ''fine'']"

definition detect_risks :: "(string list \<Rightarrow> string list) \<Rightarrow> nlp \<Rightarrow> string \<Rightarrow> string list" where
  "detect_risks ord nlp text =
     (case nlp of
        None \<Rightarrow>
          (let text_lower = py_lower text
           in ord (filter (\<lambda>word. sublist word text_lower) RISK_WORDS))
      | Some m \<Rightarrow>
          (let d = m (py_lower text)
           in ord (filter (\<lambda>t. t \<in> set RISK_WORDS) (map tok_text (doc_tokens d)))))"

section \<open>Sentences, clauses and summary\<close>

text \<open>
  \<^verbatim>\<open>re.split(r'[.!?]+', text)\<close>: the next match of the pattern is the next maximal run
  of the three characters; the piece before it is cut off and the search goes on after
  the run. The text after the last run is the last piece.
\<close>

definition is_delim :: "char \<Rightarrow> bool" where
  "is_delim c = (c = CHR ''.'' \<or> c = CHR ''!'' \<or> c = CHR ''?'')"

function re_split :: "string \<Rightarrow> string list" where
  "re_split s =
     (case dropWhile (\<lambda>c. \<not> is_delim c) s of
        [] \<Rightarrow> [s]
      | d # rest \<Rightarrow> takeWhile (\<lambda>c. \<not> is_delim c) s # re_split (dropWhile is_delim rest))"
  by pat_completeness auto
termination
proof (relation "measure length")
  show "wf (measure length)" by simp
next
  fix s :: string and d rest
  assume a: "dropWhile (\<lambda>c. \<not> is_delim c) s = d # rest"
  have "length (dropWhile is_delim rest) \<le> length rest"
    by (rule length_dropWhile_le)
  also have "length rest < length (dropWhile (\<lambda>c. \<not> is_delim c) s)"
    by (simp add: a)
  also have "\<dots> \<le> length s"
    by (rule length_dropWhile_le)
  finally show "(dropWhile is_delim rest, s) \<in> measure length"
    by simp
qed

declare re_split.simps [simp del]

text \<open>The two lines shared by the fallback branches of \<^verbatim>\<open>extract_key_clauses\<close> and
  \<^verbatim>\<open>summarize_text\<close>: split, then keep the trimmed pieces longer than 10.\<close>

definition fallback_sentences :: "string \<Rightarrow> string list" where
  "fallback_sentences text =
     (let sentences = re_split text
      in map py_strip (filter (\<lambda>s. 10 < length (py_strip s)) sentences))"

definition extract_key_clauses :: "nlp \<Rightarrow> string \<Rightarrow> string list" where
  "extract_key_clauses nlp text =
     (case nlp of
        None \<Rightarrow> take 10 (fallback_sentences text)
      | Some m \<Rightarrow>
          (let sentences = doc_sents (m text);
               clauses = map (\<lambda>sentence. py_strip (span_str sentence))
                             (filter (\<lambda>sentence. 10 < span_len sentence) sentences)
           in take 10 clauses))"

text \<open>The slice \<^verbatim>\<open>xs[:n]\<close>; a negative \<^verbatim>\<open>n\<close> counts from the end.\<close>

definition slice_to :: "'a list \<Rightarrow> int \<Rightarrow> 'a list" where
  "slice_to xs n = (if 0 \<le> n then take (nat n) xs else take (length xs - nat (- n)) xs)"

text \<open>
  The summary of the model branch: \<^verbatim>\<open>Counter\<close> counts the lowercased texts of the
  alphabetic tokens that are no stop words, a sentence scores the sum of the counts of
  its tokens, and \<^verbatim>\<open>heapq.nlargest(n, ...)\<close> is the first \<^verbatim>\<open>n\<close> sentences of the stable
  sort by falling score (none when \<^verbatim>\<open>n\<close> is not positive).
\<close>

definition word_frequencies :: "doc \<Rightarrow> string \<Rightarrow> nat" where
  "word_frequencies d w =
     count_list (map (\<lambda>t. py_lower (tok_text t))
                     (filter (\<lambda>t. is_alpha t \<and> \<not> is_stop t) (doc_tokens d))) w"

definition sentence_score :: "doc \<Rightarrow> token list \<Rightarrow> nat" where
  "sentence_score d sent = sum_list (map (\<lambda>word. word_frequencies d (py_lower (tok_text word))) sent)"

definition nlargest :: "int \<Rightarrow> ('a \<Rightarrow> nat) \<Rightarrow> 'a list \<Rightarrow> 'a list" where
  "nlargest n key xs =
     (if n \<le> 0 then [] else take (nat n) (sort_key (\<lambda>x. - int (key x)) xs))"

definition summarize_text :: "nlp \<Rightarrow> string \<Rightarrow> int \<Rightarrow> string" where
  "summarize_text nlp text num_sentences =
     (case nlp of
        None \<Rightarrow> py_join ''. '' (slice_to (fallback_sentences text) num_sentences)
      | Some m \<Rightarrow>
          (let d = m text;
               sentences = doc_sents d;
               summarized_sentences = nlargest num_sentences (sentence_score d) sentences
           in py_join '' '' (map span_str summarized_sentences)))"

text \<open>The call without the second argument uses its default.\<close>

definition summarize_text_default :: "nlp \<Rightarrow> string \<Rightarrow> string" where
  "summarize_text_default nlp text = summarize_text nlp text 5"

section \<open>Regular expressions\<close>

text \<open>
  The two patterns of the entity recognizer use literals, the classes \<^verbatim>\<open>\d\<close> and
  \<^verbatim>\<open>\s\<close>, a character set, the word boundary \<^verbatim>\<open>\b\<close>, sequence, alternation and greedy
  repetition. \<open>Rep lo hi p\<close> is \<^verbatim>\<open>p{lo,hi}\<close> and \<open>RepInf lo p\<close> is \<^verbatim>\<open>p{lo,}\<close>.
\<close>

datatype regex =
    Lit char
  | Digit
  | Space
  | OneOf "char list"
  | WordB
  | Seq regex regex
  | Alt regex regex
  | Rep nat nat regex
  | RepInf nat regex

definition is_digit :: "char \<Rightarrow> bool" where
  "is_digit c = (let n = code_point c in 48 \<le> n \<and> n \<le> 57)"

text \<open>The class \<^verbatim>\<open>\w\<close>: the alphanumeric characters and the underscore.\<close>

definition is_word :: "char \<Rightarrow> bool" where
  "is_word c =
     (let n = code_point c in
      (48 \<le> n \<and> n \<le> 57) \<or> (65 \<le> n \<and> n \<le> 90) \<or> n = 95 \<or> (97 \<le> n \<and> n \<le> 122)
      \<or> n = 170 \<or> n = 178 \<or> n = 179 \<or> n = 181 \<or> n = 185 \<or> n = 186
      \<or> (188 \<le> n \<and> n \<le> 190) \<or> (192 \<le> n \<and> n \<le> 214) \<or> (216 \<le> n \<and> n \<le> 246)
      \<or> (248 \<le> n \<and> n \<le> 255))"

text \<open>
  A position in the text is the pair of the characters before it, nearest first, and
  the characters after it. The matcher lists the positions where a match of the
  pattern that starts at the given position can end, in the order in which the
  backtracking search tries them: the head of the list is the match that is found.
\<close>

type_synonym pos = "string \<times> string"

definition at_boundary :: "pos \<Rightarrow> bool" where
  "at_boundary st =
     ((case fst st of [] \<Rightarrow> False | c # _ \<Rightarrow> is_word c)
      \<noteq> (case snd st of [] \<Rightarrow> False | c # _ \<Rightarrow> is_word c))"

definition step_if :: "(char \<Rightarrow> bool) \<Rightarrow> pos \<Rightarrow> pos list" where
  "step_if P st = (case snd st of [] \<Rightarrow> [] | x # xs \<Rightarrow> if P x then [(x # fst st, xs)] else [])"

text \<open>Greedy repetition of a matcher between \<open>lo\<close> and \<open>hi\<close> times: one more round is
  tried before stopping.\<close>

primrec rep_n :: "nat \<Rightarrow> nat \<Rightarrow> (pos \<Rightarrow> pos list) \<Rightarrow> pos \<Rightarrow> pos list" where
  "rep_n lo 0 f st = (if lo = 0 then [st] else [])"
| "rep_n lo (Suc hi) f st =
     concat (map (rep_n (lo - 1) hi f) (f st)) @ (if lo = 0 then [st] else [])"

text \<open>
  \<open>ic\<close> is the flag \<^verbatim>\<open>re.IGNORECASE\<close>. In both patterns the body of an unbounded
  repetition takes at least one character, so it runs at most as often as there are
  characters left.
\<close>

primrec rmatch :: "regex \<Rightarrow> bool \<Rightarrow> pos \<Rightarrow> pos list" where
  "rmatch (Lit c) ic = step_if (\<lambda>x. if ic then lower_char x = lower_char c else x = c)"
| "rmatch Digit ic = step_if is_digit"
| "rmatch Space ic = step_if is_space"
| "rmatch (OneOf cs) ic = step_if (\<lambda>x. x \<in> set cs)"
| "rmatch WordB ic = (\<lambda>st. if at_boundary st then [st] else [])"
| "rmatch (Seq p q) ic = (\<lambda>st. concat (map (rmatch q ic) (rmatch p ic st)))"
| "rmatch (Alt p q) ic = (\<lambda>st. rmatch p ic st @ rmatch q ic st)"
| "rmatch (Rep lo hi p) ic = rep_n lo hi (rmatch p ic)"
| "rmatch (RepInf lo p) ic = (\<lambda>st. rep_n lo (length (snd st)) (rmatch p ic) st)"

text \<open>
  \<^verbatim>\<open>re.findall\<close> for a pattern without groups: the leftmost match from the current
  position on is recorded and the search goes on behind it. Neither pattern of the
  program matches the empty string; on an empty match the function below records it and
  moves one character on.
\<close>

function findall_from :: "bool \<Rightarrow> regex \<Rightarrow> string \<Rightarrow> string \<Rightarrow> string list" where
  "findall_from ic p b r =
     (case rmatch p ic (b, r) of
        [] \<Rightarrow> (case r of [] \<Rightarrow> [] | c # cs \<Rightarrow> findall_from ic p (c # b) cs)
      | (b', r') # _ \<Rightarrow>
          (if length r' < length r
           then rev (take (length b' - length b) b') # findall_from ic p b' r'
           else [] # (case r of [] \<Rightarrow> [] | c # cs \<Rightarrow> findall_from ic p (c # b) cs)))"
  by pat_completeness auto
termination
  by (relation "measure (\<lambda>(ic, p, b, r). length r)") auto

declare findall_from.simps [simp del]

definition findall :: "bool \<Rightarrow> regex \<Rightarrow> string \<Rightarrow> string list" where
  "findall ic p text = findall_from ic p [] text"

fun seq_all :: "regex list \<Rightarrow> regex" where
  "seq_all [p] = p"
| "seq_all (p # ps) = Seq p (seq_all ps)"
| "seq_all [] = Rep 0 0 WordB"

definition word :: "string \<Rightarrow> regex" where
  "word w = seq_all (map Lit w)"

text \<open>\<^verbatim>\<open>\b\d{1,2}[/-]\d{1,2}[/-]\d{2,4}\b|\b\d{4}\b\<close>\<close>

definition date_pattern :: regex where
  "date_pattern =
     Alt (seq_all [WordB, Rep 1 2 Digit, OneOf ''/-'', Rep 1 2 Digit, OneOf ''/-'',
                   Rep 2 4 Digit, WordB])
         (seq_all [WordB, Rep 4 4 Digit, WordB])"

text \<open>\<^verbatim>\<open>\$\d+(?:,\d{3})*(?:\.\d{2})?|\d+(?:,\d{3})*(?:\.\d{2})?\s*(?:USD|dollars?|cents?)\<close>\<close>

definition money_pattern :: regex where
  "money_pattern =
     Alt (seq_all [Lit (CHR ''$''), RepInf 1 Digit,
                   RepInf 0 (Seq (Lit (CHR '','')) (Rep 3 3 Digit)),
                   Rep 0 1 (Seq (Lit (CHR ''.'')) (Rep 2 2 Digit))])
         (seq_all [RepInf 1 Digit,
                   RepInf 0 (Seq (Lit (CHR '','')) (Rep 3 3 Digit)),
                   Rep 0 1 (Seq (Lit (CHR ''.'')) (Rep 2 2 Digit)),
                   RepInf 0 Space,
                   Alt (word ''USD'')
                       (Alt (Seq (word ''dollar'') (Rep 0 1 (Lit (CHR ''s''))))
                            (Seq (word ''cent'') (Rep 0 1 (Lit (CHR ''s'')))))])"

text \<open>A pattern that is \<open>consuming\<close> takes at least one character on every match; both
  patterns are, so the empty-match branch of \<open>findall_from\<close> is never taken for them.\<close>

primrec consuming :: "regex \<Rightarrow> bool" where
  "consuming (Lit c) = True"
| "consuming Digit = True"
| "consuming Space = True"
| "consuming (OneOf cs) = True"
| "consuming WordB = False"
| "consuming (Seq p q) = (consuming p \<or> consuming q)"
| "consuming (Alt p q) = (consuming p \<and> consuming q)"
| "consuming (Rep lo hi p) = (0 < lo \<and> consuming p)"
| "consuming (RepInf lo p) = (0 < lo \<and> consuming p)"

section \<open>Entity recognizer\<close>

text \<open>The bucket map is a dictionary with five keys, kept in insertion order.\<close>

type_synonym entities = "(string \<times> string list) list"

definition empty_entities :: entities where
  "empty_entities =
     [(''PERSONS'', []), (''ORGANIZATIONS'', []), (''DATES'', []), (''MONETARY'', []),
      (''LEGAL_TERMS'', [])]"

definition legal_terms :: "string list" where
  "legal_terms =
     [''contract'', ''agreement'', ''liability'', ''indemnity'', ''warranty'', ''termination'',
      ''jurisdiction'', ''governing law'']"

text \<open>One round of the loop over \<^verbatim>\<open>doc.ents\<close>; the entity is its label and its text.\<close>

fun add_entity :: "entities \<Rightarrow> string \<times> string \<Rightarrow> entities" where
  "add_entity entities (label, txt) =
     (if label = ''PERSON'' then AList.map_entry ''PERSONS'' (\<lambda>xs. xs @ [txt]) entities
      else if label = ''ORG'' then AList.map_entry ''ORGANIZATIONS'' (\<lambda>xs. xs @ [txt]) entities
      else if label = ''DATE'' then AList.map_entry ''DATES'' (\<lambda>xs. xs @ [txt]) entities
      else if label = ''MONEY'' then AList.map_entry ''MONETARY'' (\<lambda>xs. xs @ [txt]) entities
      else entities)"

text \<open>The loop at the end of \<^verbatim>\<open>extract_legal_entities\<close> runs over the map built by the
  branch taken; \<open>collect_entities\<close> is that map before the loop.\<close>

definition collect_entities ::
    "(string list \<Rightarrow> string list) \<Rightarrow> nlp \<Rightarrow> string \<Rightarrow> entities" where
  "collect_entities ord nlp text =
     (let entities = empty_entities
      in (case nlp of
            None \<Rightarrow>
              (let entities = AList.update ''DATES'' (ord (findall False date_pattern text)) entities;
                   entities = AList.update ''MONETARY'' (ord (findall True money_pattern text)) entities;
                   text_lower = py_lower text;
                   entities = AList.update ''LEGAL_TERMS''
                                (filter (\<lambda>term. sublist term text_lower) legal_terms) entities
               in entities)
          | Some m \<Rightarrow> foldl add_entity entities (doc_ents (m text))))"

definition extract_legal_entities ::
    "(string list \<Rightarrow> string list) \<Rightarrow> nlp \<Rightarrow> string \<Rightarrow> entities" where
  "extract_legal_entities ord nlp text =
     (let entities = collect_entities ord nlp text
      in map (\<lambda>(key, bucket). (key, take 10 (ord bucket))) entities)"

text \<open>\<^verbatim>\<open>entities[key]\<close> on the returned map.\<close>

definition bucket :: "entities \<Rightarrow> string \<Rightarrow> string list option" where
  "bucket entities key = map_of entities key"

section \<open>The splitter as the specification reads it\<close>

text \<open>Pieces put back together with the runs of sentence marks that separated them.\<close>

fun interleave :: "string list \<Rightarrow> string list \<Rightarrow> string" where
  "interleave (p # ps) (d # ds) = p @ d @ interleave ps ds"
| "interleave ps [] = concat ps"
| "interleave [] ds = concat ds"

section \<open>Example inputs\<close>

definition example_text :: string where
  "example_text =
     ''This is a test contract. It was signed on 01/02/2020 for $500.00. Governing law is California. Termination occurs in jurisdiction X. Liability is limited. Confidential information is protected.''"

text \<open>A pipeline that reads the text \<^verbatim>\<open>"A!!!!!!!!!\n"\<close> as one sentence of eleven tokens:
  the letter, nine exclamation marks and the line break.\<close>

definition mark_token :: "string \<Rightarrow> token" where
  "mark_token w = \<lparr>tok_text = w, tok_ws = [], is_alpha = False, is_stop = False\<rparr>"

definition bang_text :: string where
  "bang_text = ''A!!!!!!!!!'' @ [CHR 0x0A]"

definition bang_doc :: doc where
  "bang_doc =
     \<lparr>doc_sents = [[mark_token ''A''] @ replicate 9 (mark_token ''!'') @ [mark_token [CHR 0x0A]]],
      doc_ents = []\<rparr>"

definition bang_nlp :: nlp where
  "bang_nlp = Some (\<lambda>t. if t = bang_text then bang_doc else \<lparr>doc_sents = [], doc_ents = []\<rparr>)"

text \<open>A pipeline that reads a text as one sentence of the words between spaces and
  labels every word that starts with a capital letter as a person.\<close>

fun split_spaces :: "string \<Rightarrow> string list" where
  "split_spaces [] = [[]]"
| "split_spaces (c # cs) =
     (if c = CHR '' '' then [] # split_spaces cs
      else (case split_spaces cs of [] \<Rightarrow> [[c]] | w # ws \<Rightarrow> (c # w) # ws))"

definition word_token :: "string \<Rightarrow> token" where
  "word_token w = \<lparr>tok_text = w, tok_ws = '' '', is_alpha = True, is_stop = False\<rparr>"

definition words_doc :: "string \<Rightarrow> doc" where
  "words_doc t =
     (let ws = filter (\<lambda>w. w \<noteq> []) (split_spaces t)
      in \<lparr>doc_sents = [map word_token ws],
          doc_ents = map (\<lambda>w. (''PERSON'', w)) (filter (\<lambda>w. lower_char (hd w) \<noteq> hd w) ws)\<rparr>)"

definition words_nlp :: nlp where
  "words_nlp = Some words_doc"

section \<open>Facts about texts\<close>

lemma set_order_remdups: "set_order remdups"
  by (simp add: set_order_def)

lemma set_order_set: "set_order ord \<Longrightarrow> set (ord xs) = set xs"
  by (simp add: set_order_def)

lemma set_order_distinct: "set_order ord \<Longrightarrow> distinct (ord xs)"
  by (simp add: set_order_def)

lemma set_order_Nil: "set_order ord \<Longrightarrow> ord [] = []"
  using set_order_set [of ord "[]"] by simp

lemma sublist_map: "sublist w t \<Longrightarrow> sublist (map f w) (map f t)"
proof -
  assume "sublist w t"
  then obtain ps ss where "t = ps @ w @ ss"
    by (auto simp: sublist_def)
  then have "map f t = map f ps @ map f w @ map f ss"
    by simp
  then show ?thesis
    unfolding sublist_def by blast
qed

lemma sublist_py_lower:
  assumes "sublist w t" and "py_lower w = w"
  shows "sublist w (py_lower t)"
  using sublist_map [OF assms(1), of lower_char] assms(2) by (simp add: py_lower_def)

lemma set_order_rev_remdups: "set_order (\<lambda>xs. rev (remdups xs))"
  by (simp add: set_order_def)

section \<open>Compliance checker: results\<close>

lemma check_compliance_refines: "check_compliance text = check_compliance_spec text"
  by (simp add: check_compliance_def check_compliance_spec_def compliance_rules_def)

lemma check_compliance_empty:
  "check_compliance [] =
     [''Missing governing law or jurisdiction clause'',
      ''No termination clause found'',
      ''No confidentiality or proprietary information clause'',
      ''Liability terms not clearly defined'',
      ''Document may lack proper signature requirements'']"
  by code_simp

lemma check_compliance_lower_present:
  assumes "sublist ''governing law'' (py_lower text) \<or> sublist ''jurisdiction'' (py_lower text)"
    and "sublist ''termination'' (py_lower text)"
    and "sublist ''confidential'' (py_lower text) \<or> sublist ''proprietary'' (py_lower text)"
    and "sublist ''liability'' (py_lower text)"
    and "sublist ''signature'' (py_lower text) \<or> sublist ''signed'' (py_lower text)"
  shows "check_compliance text = []"
  using assms by (simp add: check_compliance_def Let_def)

lemma phrases_lower:
  "py_lower ''governing law'' = ''governing law''"
  "py_lower ''termination'' = ''termination''"
  "py_lower ''confidential'' = ''confidential''"
  "py_lower ''liability'' = ''liability''"
  "py_lower ''signature'' = ''signature''"
  by code_simp+

text \<open>
  Claim C3. The result of \<open>check_compliance\<close> is the list of the messages of the five
  rules, in the order governing law, termination, confidentiality, liability,
  signature, whose condition holds on the lowercased text. On the empty text all five
  messages are returned in that order, and a text that contains ``governing law'',
  ``termination'', ``confidential'', ``liability'' and ``signature'' yields the empty list.
\<close>

theorem check_compliance_rules:
  "check_compliance text = check_compliance_spec text
   \<and> check_compliance [] =
       [''Missing governing law or jurisdiction clause'',
        ''No termination clause found'',
        ''No confidentiality or proprietary information clause'',
        ''Liability terms not clearly defined'',
        ''Document may lack proper signature requirements'']
   \<and> (sublist ''governing law'' text \<and> sublist ''termination'' text
        \<and> sublist ''confidential'' text \<and> sublist ''liability'' text
        \<and> sublist ''signature'' text \<longrightarrow> check_compliance text = [])"
proof (intro conjI impI)
  show "check_compliance text = check_compliance_spec text"
    by (rule check_compliance_refines)
next
  show "check_compliance [] =
       [''Missing governing law or jurisdiction clause'',
        ''No termination clause found'',
        ''No confidentiality or proprietary information clause'',
        ''Liability terms not clearly defined'',
        ''Document may lack proper signature requirements'']"
    by (rule check_compliance_empty)
next
  assume a: "sublist ''governing law'' text \<and> sublist ''termination'' text
        \<and> sublist ''confidential'' text \<and> sublist ''liability'' text
        \<and> sublist ''signature'' text"
  show "check_compliance text = []"
    by (rule check_compliance_lower_present) (simp_all add: a sublist_py_lower phrases_lower)
qed

theorem check_compliance_rules_witness:
  "check_compliance ''The governing law is X. termination, confidential, liability, signature.'' = []"
proof -
  have h: "sublist ''governing law'' ''The governing law is X. termination, confidential, liability, signature.''
      \<and> sublist ''termination'' ''The governing law is X. termination, confidential, liability, signature.''
      \<and> sublist ''confidential'' ''The governing law is X. termination, confidential, liability, signature.''
      \<and> sublist ''liability'' ''The governing law is X. termination, confidential, liability, signature.''
      \<and> sublist ''signature'' ''The governing law is X. termination, confidential, liability, signature.''"
    by code_simp
  from check_compliance_rules [of "''The governing law is X. termination, confidential, liability, signature.''"] h
  show ?thesis by blast
qed

text \<open>
  Claim C9. \<open>check_compliance\<close> is case-insensitive: two texts that are equal after
  lowercasing get the same issue list.
\<close>

theorem check_compliance_case_insensitive:
  "py_lower a = py_lower b \<Longrightarrow> check_compliance a = check_compliance b"
  by (simp add: check_compliance_def)

theorem check_compliance_case_insensitive_witness:
  "py_lower ''Signed; Governing Law'' = py_lower ''SIGNED; GOVERNING LAW''
   \<and> check_compliance ''Signed; Governing Law'' = check_compliance ''SIGNED; GOVERNING LAW''"
proof -
  have h: "py_lower ''Signed; Governing Law'' = py_lower ''SIGNED; GOVERNING LAW''"
    by code_simp
  from check_compliance_case_insensitive [OF h] h show ?thesis by blast
qed

section \<open>Risk detector: results\<close>

lemma RISK_WORDS_length: "length RISK_WORDS = 10"
  by (simp add: RISK_WORDS_def)

lemma RISK_WORDS_set:
  "set RISK_WORDS =
     {''fraud'', ''penalty'', ''violation'', ''risk'', ''lawsuit'', ''breach'',
      ''noncompliance'', ''litigation'', ''regulatory'', ''fine''}"
  by (simp add: RISK_WORDS_def)

lemma detect_risks_subset:
  assumes "set_order ord"
  shows "set (detect_risks ord nlp text) \<subseteq> set RISK_WORDS"
  by (cases nlp) (auto simp: detect_risks_def set_order_set [OF assms])

text \<open>
  Claim C6. In fallback mode the set of the terms returned by \<open>detect_risks\<close> is the
  set of the terms of the ten-term risk vocabulary that are contiguous parts of the
  lowercased text; when no term occurs in it the result is empty.
\<close>

theorem detect_risks_fallback:
  assumes "set_order ord"
  shows "set (detect_risks ord None text) = {w \<in> set RISK_WORDS. sublist w (py_lower text)}
    \<and> length RISK_WORDS = 10
    \<and> ((\<forall>w \<in> set RISK_WORDS. \<not> sublist w (py_lower text)) \<longrightarrow> detect_risks ord None text = [])"
proof (intro conjI impI)
  show "set (detect_risks ord None text) = {w \<in> set RISK_WORDS. sublist w (py_lower text)}"
    by (simp add: detect_risks_def set_order_set [OF assms])
next
  show "length RISK_WORDS = 10" by (rule RISK_WORDS_length)
next
  assume "\<forall>w \<in> set RISK_WORDS. \<not> sublist w (py_lower text)"
  then have "filter (\<lambda>word. sublist word (py_lower text)) RISK_WORDS = []"
    by (simp add: filter_empty_conv)
  then show "detect_risks ord None text = []"
    by (simp add: detect_risks_def set_order_Nil [OF assms])
qed

theorem detect_risks_fallback_witness:
  "set (detect_risks remdups None ''Risk of FRAUD, and a fine.'') = {''fraud'', ''risk'', ''fine''}
   \<and> detect_risks remdups None ''A quiet day.'' = []"
proof -
  have a: "{w \<in> set RISK_WORDS. sublist w (py_lower ''Risk of FRAUD, and a fine.'')} = {''fraud'', ''risk'', ''fine''}"
    by code_simp
  have b: "\<forall>w \<in> set RISK_WORDS. \<not> sublist w (py_lower ''A quiet day.'')"
    by code_simp
  from detect_risks_fallback [OF set_order_remdups, of "''Risk of FRAUD, and a fine.''"] a
    detect_risks_fallback [OF set_order_remdups, of "''A quiet day.''"] b
  show ?thesis by (simp only:)
qed

text \<open>
  Claim C8. Two runs of \<open>detect_risks\<close> on the same text, under the same model, return
  the same set of terms, whatever order the hash set lists them in.
\<close>

theorem detect_risks_same_set:
  assumes "set_order ord1" and "set_order ord2"
  shows "set (detect_risks ord1 nlp text) = set (detect_risks ord2 nlp text)"
  by (cases nlp) (simp_all add: detect_risks_def set_order_set [OF assms(1)] set_order_set [OF assms(2)])

theorem detect_risks_same_set_witness:
  "set (detect_risks remdups None ''Breach and FRAUD; a fine fine.'')
     = set (detect_risks (\<lambda>xs. rev (remdups xs)) None ''Breach and FRAUD; a fine fine.'')
   \<and> detect_risks remdups None ''Breach and FRAUD; a fine fine.'' = [''fraud'', ''breach'', ''fine'']
   \<and> detect_risks (\<lambda>xs. rev (remdups xs)) None ''Breach and FRAUD; a fine fine.''
       = [''fine'', ''breach'', ''fraud'']"
proof -
  have a: "detect_risks remdups None ''Breach and FRAUD; a fine fine.'' = [''fraud'', ''breach'', ''fine'']"
    by code_simp
  have b: "detect_risks (\<lambda>xs. rev (remdups xs)) None ''Breach and FRAUD; a fine fine.''
       = [''fine'', ''breach'', ''fraud'']"
    by code_simp
  from detect_risks_same_set [OF set_order_remdups set_order_rev_remdups, of None
      "''Breach and FRAUD; a fine fine.''"] a b
  show ?thesis by blast
qed

text \<open>
  Claim C10. In both modes every term returned by \<open>detect_risks\<close> is one of the ten
  terms of the risk vocabulary.
\<close>

theorem detect_risks_in_vocabulary:
  assumes "set_order ord"
  shows "\<forall>w \<in> set (detect_risks ord nlp text).
           w \<in> {''fraud'', ''penalty'', ''violation'', ''risk'', ''lawsuit'', ''breach'',
                 ''noncompliance'', ''litigation'', ''regulatory'', ''fine''}"
proof
  fix w
  assume "w \<in> set (detect_risks ord nlp text)"
  with detect_risks_subset [OF assms] have "w \<in> set RISK_WORDS"
    by (rule subsetD)
  then show "w \<in> {''fraud'', ''penalty'', ''violation'', ''risk'', ''lawsuit'', ''breach'',
                 ''noncompliance'', ''litigation'', ''regulatory'', ''fine''}"
    by (simp only: RISK_WORDS_set)
qed

theorem detect_risks_in_vocabulary_witness:
  "detect_risks remdups words_nlp ''The RISK of a Fine or fines'' = [''risk'', ''fine'']
   \<and> ''fine'' \<in> {''fraud'', ''penalty'', ''violation'', ''risk'', ''lawsuit'', ''breach'',
                 ''noncompliance'', ''litigation'', ''regulatory'', ''fine''}"
proof -
  have a: "detect_risks remdups words_nlp ''The RISK of a Fine or fines'' = [''risk'', ''fine'']"
    by code_simp
  have "''fine'' \<in> set (detect_risks remdups words_nlp ''The RISK of a Fine or fines'')"
    unfolding a by simp
  with detect_risks_in_vocabulary [OF set_order_remdups, of words_nlp "''The RISK of a Fine or fines''"]
  have "''fine'' \<in> {''fraud'', ''penalty'', ''violation'', ''risk'', ''lawsuit'', ''breach'',
                 ''noncompliance'', ''litigation'', ''regulatory'', ''fine''}"
    by (rule bspec)
  with a show ?thesis by (intro conjI)
qed

section \<open>Sentences, clauses and summary: results\<close>

lemma re_split_not_Nil: "re_split s \<noteq> []"
  by (subst re_split.simps) (simp split: list.split)

lemma re_split_last:
  assumes "dropWhile (\<lambda>c. \<not> is_delim c) s = []"
  shows "re_split s = [s]"
  by (subst re_split.simps) (simp only: assms list.case)

lemma re_split_cut:
  assumes "dropWhile (\<lambda>c. \<not> is_delim c) s = d # rest"
  shows "re_split s = takeWhile (\<lambda>c. \<not> is_delim c) s # re_split (dropWhile is_delim rest)"
  by (subst re_split.simps) (simp only: assms list.case)

lemma dropWhile_hd_delim:
  assumes "dropWhile (\<lambda>c. \<not> is_delim c) s = d # rest"
  shows "is_delim d"
  using hd_dropWhile [of "\<lambda>c. \<not> is_delim c" s] assms by simp

lemma no_delim_all: "dropWhile (\<lambda>c. \<not> is_delim c) s = [] \<Longrightarrow> \<forall>c \<in> set s. \<not> is_delim c"
  by (simp add: dropWhile_eq_Nil_conv)

lemma no_delim_takeWhile: "\<forall>c \<in> set (takeWhile (\<lambda>c. \<not> is_delim c) s). \<not> is_delim c"
  using set_takeWhileD [of _ "\<lambda>c. \<not> is_delim c" s] by blast

lemma re_split_no_delim: "\<forall>p \<in> set (re_split s). \<forall>c \<in> set p. \<not> is_delim c"
proof (induction s rule: re_split.induct)
  case (1 s)
  show ?case
  proof (cases "dropWhile (\<lambda>c. \<not> is_delim c) s")
    case Nil
    show ?thesis
      unfolding re_split_last [OF Nil] using no_delim_all [OF Nil]
      by (metis set_ConsD empty_iff empty_set)
  next
    case (Cons d rest)
    show ?thesis
      unfolding re_split_cut [OF Cons] using "1.IH" [OF Cons] no_delim_takeWhile [of s]
      by (metis set_ConsD)
  qed
qed

lemma re_split_decompose:
  "\<exists>ds. length (re_split s) = Suc (length ds)
        \<and> (\<forall>d \<in> set ds. d \<noteq> [] \<and> (\<forall>c \<in> set d. is_delim c))
        \<and> interleave (re_split s) ds = s"
proof (induction s rule: re_split.induct)
  case (1 s)
  show ?case
  proof (cases "dropWhile (\<lambda>c. \<not> is_delim c) s")
    case Nil
    then have "re_split s = [s]" by (rule re_split_last)
    then have "length (re_split s) = Suc (length ([] :: string list))
        \<and> (\<forall>d \<in> set ([] :: string list). d \<noteq> [] \<and> (\<forall>c \<in> set d. is_delim c))
        \<and> interleave (re_split s) [] = s" by simp
    then show ?thesis by (rule exI)
  next
    case (Cons d rest)
    then have eq: "re_split s = takeWhile (\<lambda>c. \<not> is_delim c) s # re_split (dropWhile is_delim rest)"
      by (rule re_split_cut)
    from "1.IH" [OF Cons] obtain ds where ds:
      "length (re_split (dropWhile is_delim rest)) = Suc (length ds)"
      "\<forall>d \<in> set ds. d \<noteq> [] \<and> (\<forall>c \<in> set d. is_delim c)"
      "interleave (re_split (dropWhile is_delim rest)) ds = dropWhile is_delim rest"
      by blast
    let ?run = "d # takeWhile is_delim rest"
    have d: "is_delim d" by (rule dropWhile_hd_delim [OF Cons])
    have run: "?run \<noteq> [] \<and> (\<forall>c \<in> set ?run. is_delim c)"
      using d by (auto dest: set_takeWhileD)
    have "s = takeWhile (\<lambda>c. \<not> is_delim c) s @ dropWhile (\<lambda>c. \<not> is_delim c) s"
      by simp
    also have "\<dots> = takeWhile (\<lambda>c. \<not> is_delim c) s @ ?run @ dropWhile is_delim rest"
      by (simp add: Cons)
    finally have s: "s = takeWhile (\<lambda>c. \<not> is_delim c) s @ ?run @ dropWhile is_delim rest" .
    have i: "interleave (re_split s) (?run # ds) = s"
      unfolding eq interleave.simps ds(3) using s by simp
    have l: "length (re_split s) = Suc (length (?run # ds))"
      by (simp add: eq ds(1))
    have r: "\<forall>d \<in> set (?run # ds). d \<noteq> [] \<and> (\<forall>c \<in> set d. is_delim c)"
      using run ds(2) by simp
    from l r i have "length (re_split s) = Suc (length (?run # ds))
        \<and> (\<forall>d \<in> set (?run # ds). d \<noteq> [] \<and> (\<forall>c \<in> set d. is_delim c))
        \<and> interleave (re_split s) (?run # ds) = s" by (intro conjI)
    then show ?thesis by (rule exI)
  qed
qed

lemma re_split_butlast_nonempty:
  "s = [] \<or> \<not> is_delim (hd s) \<Longrightarrow> \<forall>p \<in> set (butlast (re_split s)). p \<noteq> []"
proof (induction s rule: re_split.induct)
  case (1 s)
  show ?case
  proof (cases "dropWhile (\<lambda>c. \<not> is_delim c) s")
    case Nil
    then have "re_split s = [s]" by (rule re_split_last)
    then show ?thesis by simp
  next
    case (Cons d rest)
    then have eq: "re_split s = takeWhile (\<lambda>c. \<not> is_delim c) s # re_split (dropWhile is_delim rest)"
      by (rule re_split_cut)
    from Cons have "s \<noteq> []" by auto
    with "1.prems" have "\<not> is_delim (hd s)" by simp
    with \<open>s \<noteq> []\<close> have first: "takeWhile (\<lambda>c. \<not> is_delim c) s \<noteq> []"
      by (cases s) auto
    have "dropWhile is_delim rest = [] \<or> \<not> is_delim (hd (dropWhile is_delim rest))"
      using hd_dropWhile [of is_delim rest] by blast
    from "1.IH" [OF Cons this] first show ?thesis
      by (simp add: eq re_split_not_Nil)
  qed
qed

lemma re_split_interior_nonempty: "\<forall>p \<in> set (butlast (tl (re_split s))). p \<noteq> []"
proof (cases "dropWhile (\<lambda>c. \<not> is_delim c) s")
  case Nil
  then have "re_split s = [s]" by (rule re_split_last)
  then show ?thesis by simp
next
  case (Cons d rest)
  then have eq: "re_split s = takeWhile (\<lambda>c. \<not> is_delim c) s # re_split (dropWhile is_delim rest)"
    by (rule re_split_cut)
  have "dropWhile is_delim rest = [] \<or> \<not> is_delim (hd (dropWhile is_delim rest))"
    using hd_dropWhile [of is_delim rest] by blast
  from re_split_butlast_nonempty [OF this] show ?thesis
    by (simp add: eq)
qed

lemma last_dropWhile_ne: "dropWhile P xs \<noteq> [] \<Longrightarrow> last (dropWhile P xs) = last xs"
  using last_appendR [of "dropWhile P xs" "takeWhile P xs"] by simp

lemma dropWhile_id: "xs = [] \<or> \<not> P (hd xs) \<Longrightarrow> dropWhile P xs = xs"
  by (cases xs) simp_all

lemma py_strip_idem: "py_strip (py_strip s) = py_strip s"
proof -
  define u where "u = dropWhile is_space s"
  define t where "t = dropWhile is_space (rev u)"
  have "rev t = [] \<or> \<not> is_space (hd (rev t))"
  proof (cases "t = []")
    case True
    then show ?thesis by simp
  next
    case False
    have u: "u \<noteq> []"
    proof
      assume "u = []"
      then have "t = []" by (simp add: t_def)
      with False show False ..
    qed
    have "hd (rev t) = last t" using False by (simp add: hd_rev)
    also have "\<dots> = last (rev u)" using False unfolding t_def by (rule last_dropWhile_ne)
    also have "\<dots> = hd u" using u by (simp add: last_rev)
    finally have "hd (rev t) = hd u" .
    moreover have "\<not> is_space (hd u)" using u unfolding u_def by (rule hd_dropWhile)
    ultimately show ?thesis by simp
  qed
  then have b: "dropWhile is_space (rev t) = rev t" by (rule dropWhile_id)
  have a: "dropWhile is_space t = t" unfolding t_def by (rule dropWhile_idem)
  have "py_strip s = rev t" by (simp add: py_strip_def t_def u_def)
  moreover have "py_strip (rev t) = rev t"
    unfolding py_strip_def by (simp only: b rev_rev_ident a)
  ultimately show ?thesis by simp
qed

lemma fallback_sentences_eq:
  "fallback_sentences text = filter (\<lambda>p. 10 < length p) (map py_strip (re_split text))"
  by (simp add: fallback_sentences_def filter_map comp_def)
lemma re_split_example:
  "map py_strip (re_split '' abcdefghij. Next'') = [''abcdefghij'', ''Next'']"
  by code_simp

text \<open>
  Claim C4, as amended. The fallback splitter cuts the text at every maximal run of the
  characters \<open>.\<close>, \<open>!\<close> and \<open>?\<close>: the pieces, put back together with non-empty runs of
  these characters between them, give the text; no piece holds one of the characters,
  and no piece between two runs is empty. Each piece is trimmed, and exactly the
  trimmed pieces of length at most 10 are discarded: a trimmed piece is kept when it is
  longer than 10 characters.
\<close>

theorem fallback_splitter:
  "(\<exists>ds. length (re_split text) = Suc (length ds)
         \<and> (\<forall>d \<in> set ds. d \<noteq> [] \<and> (\<forall>c \<in> set d. is_delim c))
         \<and> interleave (re_split text) ds = text)
   \<and> (\<forall>p \<in> set (re_split text). \<forall>c \<in> set p. \<not> is_delim c)
   \<and> (\<forall>p \<in> set (butlast (tl (re_split text))). p \<noteq> [])
   \<and> fallback_sentences text = filter (\<lambda>p. 10 < length p) (map py_strip (re_split text))"
  using re_split_decompose [of "text"] re_split_no_delim [of "text"]
    re_split_interior_nonempty [of "text"] fallback_sentences_eq [of "text"]
  by (intro conjI)

theorem fallback_splitter_witness:
  "re_split ''One two three four. Five!? Six'' = [''One two three four'', '' Five'', '' Six'']
   \<and> fallback_sentences ''One two three four. Five!? Six'' = [''One two three four'']
   \<and> \<not> is_delim (CHR ''S'')"
proof -
  have a: "re_split ''One two three four. Five!? Six'' = [''One two three four'', '' Five'', '' Six'']"
    by code_simp
  have b: "filter (\<lambda>p. 10 < length p) (map py_strip [''One two three four'', '' Five'', '' Six''])
      = [''One two three four'']"
    by code_simp
  note t = fallback_splitter [of "''One two three four. Five!? Six''"]
  from t a b have c: "fallback_sentences ''One two three four. Five!? Six'' = [''One two three four'']"
    by (elim conjE) (simp only:)
  from t have "\<forall>p \<in> set (re_split ''One two three four. Five!? Six''). \<forall>c \<in> set p. \<not> is_delim c"
    by (elim conjE)
  then have "\<not> is_delim (CHR ''S'')"
    unfolding a by simp
  with a c show ?thesis by (intro conjI)
qed

text \<open>
  The claim as stated fails: the trimmed piece \<open>abcdefghij\<close> has length 10 and is
  discarded.
\<close>

theorem fallback_splitter_counterexample:
  "map py_strip (re_split '' abcdefghij. Next'') = [''abcdefghij'', ''Next'']
   \<and> length ''abcdefghij'' = 10
   \<and> ''abcdefghij'' \<notin> set (fallback_sentences '' abcdefghij. Next'')"
proof -
  have "fallback_sentences '' abcdefghij. Next'' = []"
    by code_simp
  then show ?thesis
    by (simp add: re_split_example)
qed

lemma extract_key_clauses_fallback:
  "extract_key_clauses None text
     = take 10 (filter (\<lambda>p. 10 < length p) (map py_strip (re_split text)))"
  by (simp add: extract_key_clauses_def fallback_sentences_eq)

lemma extract_key_clauses_model:
  "extract_key_clauses (Some m) text
     = take 10 (map (\<lambda>s. py_strip (span_str s)) (filter (\<lambda>s. 10 < span_len s) (doc_sents (m text))))"
  by (simp add: extract_key_clauses_def)

lemma subseq_take_filter_map:
  "subseq (take n (map f (filter Q xs))) (map f xs)"
proof -
  have "subseq (map f (filter Q xs)) (map f xs)"
    by (rule subseq_map) simp
  moreover have "subseq (take n (map f (filter Q xs))) (map f (filter Q xs))"
    by (metis append_take_drop_id list_emb_append_mono subseq_order.order_refl list_emb_Nil
        append_Nil2 list_emb_append2 prefix_def prefix_imp_subseq take_is_prefix)
  ultimately show ?thesis
    by (rule subseq_order.trans [rotated])
qed

text \<open>
  Claim C2, as amended. In both modes \<open>extract_key_clauses\<close> returns at most 10 clauses,
  the first 10 qualifying sentences in document order. In fallback mode a sentence
  qualifies when its trimmed text is longer than 10 characters, so every returned
  clause is longer than 10 characters after trimming. In model mode a sentence
  qualifies when its span has more than 10 tokens, and the clause is its trimmed text.
\<close>

theorem extract_key_clauses_first_ten:
  "length (extract_key_clauses nlp text) \<le> 10
   \<and> extract_key_clauses None text
       = take 10 (filter (\<lambda>p. 10 < length p) (map py_strip (re_split text)))
   \<and> subseq (extract_key_clauses None text) (map py_strip (re_split text))
   \<and> (\<forall>c \<in> set (extract_key_clauses None text). 10 < length (py_strip c))
   \<and> extract_key_clauses (Some m) text
       = take 10 (map (\<lambda>s. py_strip (span_str s))
                      (filter (\<lambda>s. 10 < span_len s) (doc_sents (m text))))
   \<and> subseq (extract_key_clauses (Some m) text)
             (map (\<lambda>s. py_strip (span_str s)) (doc_sents (m text)))"
proof (intro conjI)
  show "length (extract_key_clauses nlp text) \<le> 10"
    by (cases nlp) (simp_all add: extract_key_clauses_def)
next
  show "extract_key_clauses None text
       = take 10 (filter (\<lambda>p. 10 < length p) (map py_strip (re_split text)))"
    by (rule extract_key_clauses_fallback)
next
  have "extract_key_clauses None text
      = take 10 (map py_strip (filter (\<lambda>s. 10 < length (py_strip s)) (re_split text)))"
    by (simp add: extract_key_clauses_def fallback_sentences_def)
  then show "subseq (extract_key_clauses None text) (map py_strip (re_split text))"
    by (simp only: subseq_take_filter_map)
next
  show "\<forall>c \<in> set (extract_key_clauses None text). 10 < length (py_strip c)"
  proof
    fix c
    assume "c \<in> set (extract_key_clauses None text)"
    then have "c \<in> set (fallback_sentences text)"
      by (auto simp: extract_key_clauses_def dest: in_set_takeD)
    then obtain s where "c = py_strip s" and "10 < length (py_strip s)"
      by (auto simp: fallback_sentences_def)
    then show "10 < length (py_strip c)"
      by (simp add: py_strip_idem)
  qed
next
  show "extract_key_clauses (Some m) text
       = take 10 (map (\<lambda>s. py_strip (span_str s))
                      (filter (\<lambda>s. 10 < span_len s) (doc_sents (m text))))"
    by (rule extract_key_clauses_model)
next
  show "subseq (extract_key_clauses (Some m) text)
             (map (\<lambda>s. py_strip (span_str s)) (doc_sents (m text)))"
    by (simp only: extract_key_clauses_model subseq_take_filter_map)
qed

theorem extract_key_clauses_first_ten_witness:
  "extract_key_clauses None ''One two three four. Five!? Six seven eight''
     = [''One two three four'', ''Six seven eight'']
   \<and> 10 < length (py_strip ''Six seven eight'')"
proof -
  have a: "take 10 (filter (\<lambda>p. 10 < length p)
        (map py_strip (re_split ''One two three four. Five!? Six seven eight'')))
      = [''One two three four'', ''Six seven eight'']"
    by code_simp
  note t = extract_key_clauses_first_ten [of None "''One two three four. Five!? Six seven eight''" words_doc]
  from t a have e: "extract_key_clauses None ''One two three four. Five!? Six seven eight''
     = [''One two three four'', ''Six seven eight'']"
    by (elim conjE) (simp only:)
  from t have "\<forall>c \<in> set (extract_key_clauses None ''One two three four. Five!? Six seven eight'').
      10 < length (py_strip c)"
    by (elim conjE)
  then have "10 < length (py_strip ''Six seven eight'')"
    unfolding e by simp
  with e show ?thesis by (intro conjI)
qed

text \<open>
  The claim as stated fails in model mode: a sentence of eleven tokens qualifies, and its
  trimmed text \<open>A!!!!!!!!!\<close> has only 10 characters.
\<close>

theorem extract_key_clauses_counterexample:
  "extract_key_clauses bang_nlp bang_text = [''A!!!!!!!!!'']
   \<and> \<not> 10 < length (py_strip ''A!!!!!!!!!'')"
  by code_simp

lemma slice_to_nat: "slice_to xs (int n) = take n xs"
  by (simp add: slice_to_def)

text \<open>
  Claim C5. In fallback mode \<open>summarize_text\<close> with the count \<open>n\<close> joins the first \<open>n\<close>
  qualifying sentences (the trimmed pieces longer than 10 characters, in document
  order) with a full stop and a space; with fewer than \<open>n\<close> qualifying sentences it
  joins all of them; the default count is 5.
\<close>

theorem summarize_text_fallback:
  "summarize_text None text (int n) = py_join ''. '' (take n (fallback_sentences text))
   \<and> fallback_sentences text = filter (\<lambda>p. 10 < length p) (map py_strip (re_split text))
   \<and> (length (fallback_sentences text) \<le> n
        \<longrightarrow> summarize_text None text (int n) = py_join ''. '' (fallback_sentences text))
   \<and> summarize_text_default None text = py_join ''. '' (take 5 (fallback_sentences text))"
proof (intro conjI impI)
  show a: "summarize_text None text (int n) = py_join ''. '' (take n (fallback_sentences text))"
    by (simp add: summarize_text_def slice_to_nat)
  show "fallback_sentences text = filter (\<lambda>p. 10 < length p) (map py_strip (re_split text))"
    by (rule fallback_sentences_eq)
  show "summarize_text None text (int n) = py_join ''. '' (fallback_sentences text)"
    if "length (fallback_sentences text) \<le> n"
    using that by (simp add: a)
  have "summarize_text None text 5 = summarize_text None text (int 5)"
    by simp
  also have "\<dots> = py_join ''. '' (take 5 (fallback_sentences text))"
    by (simp only: summarize_text_def slice_to_nat option.case)
  finally show "summarize_text_default None text = py_join ''. '' (take 5 (fallback_sentences text))"
    by (simp add: summarize_text_default_def)
qed

theorem summarize_text_fallback_witness:
  "summarize_text None ''One two three four. Five!? Six seven eight. Nine ten eleven'' (int 2)
     = ''One two three four. Six seven eight''
   \<and> summarize_text None ''One two three four. Five!? Six seven eight. Nine ten eleven'' (int 7)
     = ''One two three four. Six seven eight. Nine ten eleven''"
proof -
  have f: "fallback_sentences ''One two three four. Five!? Six seven eight. Nine ten eleven''
      = [''One two three four'', ''Six seven eight'', ''Nine ten eleven'']"
    by code_simp
  have l: "length (fallback_sentences ''One two three four. Five!? Six seven eight. Nine ten eleven'') \<le> 7"
    by (simp add: f)
  from summarize_text_fallback [of "''One two three four. Five!? Six seven eight. Nine ten eleven''" 2]
  have "summarize_text None ''One two three four. Five!? Six seven eight. Nine ten eleven'' (int 2)
      = py_join ''. '' (take 2 (fallback_sentences ''One two three four. Five!? Six seven eight. Nine ten eleven''))"
    by (rule conjunct1)
  moreover from summarize_text_fallback [of "''One two three four. Five!? Six seven eight. Nine ten eleven''" 7] l
  have "summarize_text None ''One two three four. Five!? Six seven eight. Nine ten eleven'' (int 7)
      = py_join ''. '' (fallback_sentences ''One two three four. Five!? Six seven eight. Nine ten eleven'')"
    by blast
  ultimately show ?thesis
    by (simp add: f)
qed

section \<open>Entity recognizer: results\<close>

lemma map_fst_map_entry: "map fst (AList.map_entry k f al) = map fst al"
  by (induction al) simp_all

lemma map_fst_add_entity: "map fst (add_entity e ent) = map fst e"
  by (cases ent) (simp add: map_fst_map_entry)

lemma map_fst_foldl_add_entity: "map fst (foldl add_entity e ents) = map fst e"
  by (induction ents arbitrary: e) (simp_all add: map_fst_add_entity)

lemma collect_entities_keys:
  "map fst (collect_entities ord nlp text)
     = [''PERSONS'', ''ORGANIZATIONS'', ''DATES'', ''MONETARY'', ''LEGAL_TERMS'']"
proof (cases nlp)
  case None
  then show ?thesis
    by (simp add: collect_entities_def empty_entities_def)
next
  case (Some m)
  then show ?thesis
    by (simp add: collect_entities_def map_fst_foldl_add_entity empty_entities_def)
qed

lemma map_fst_dedup: "map fst (map (\<lambda>(key, b). (key, f b)) e) = map fst e"
  by (induction e) auto

lemma extract_legal_entities_keys:
  "map fst (extract_legal_entities ord nlp text)
     = [''PERSONS'', ''ORGANIZATIONS'', ''DATES'', ''MONETARY'', ''LEGAL_TERMS'']"
  unfolding extract_legal_entities_def Let_def
  by (simp only: map_fst_dedup collect_entities_keys)

lemma capped_bucket:
  assumes "set_order ord"
  shows "distinct (take 10 (ord raw))" and "length (take 10 (ord raw)) \<le> 10"
    and "set (take 10 (ord raw)) \<subseteq> set raw"
    and "length (take 10 (ord raw)) = min 10 (card (set raw))"
proof -
  show "distinct (take 10 (ord raw))"
    using set_order_distinct [OF assms, of raw] by simp
  show "length (take 10 (ord raw)) \<le> 10"
    by simp
  show "set (take 10 (ord raw)) \<subseteq> set raw"
    using set_take_subset [of 10 "ord raw"] set_order_set [OF assms, of raw] by simp
  have "length (ord raw) = card (set raw)"
    using distinct_card [OF set_order_distinct [OF assms, of raw]] set_order_set [OF assms, of raw]
    by simp
  then show "length (take 10 (ord raw)) = min 10 (card (set raw))"
    by (simp add: min.commute)
qed

lemma collect_entities_keys_distinct: "distinct (map fst (collect_entities ord nlp text))"
  by (simp add: collect_entities_keys)

text \<open>
  Claim C7. In both modes the returned map has the five keys, and every bucket is free
  of duplicates and has at most 10 entries. A bucket holds entries of the bucket
  collected before the final loop, as many as that bucket has distinct entries, up to
  10; fewer than 10 candidates are all returned.
\<close>

theorem entity_buckets_capped:
  assumes "set_order ord"
  shows "map fst (extract_legal_entities ord nlp text)
       = [''PERSONS'', ''ORGANIZATIONS'', ''DATES'', ''MONETARY'', ''LEGAL_TERMS'']
    \<and> (\<forall>(key, b) \<in> set (extract_legal_entities ord nlp text). distinct b \<and> length b \<le> 10)
    \<and> (\<forall>(key, raw) \<in> set (collect_entities ord nlp text).
          \<exists>b. bucket (extract_legal_entities ord nlp text) key = Some b
             \<and> set b \<subseteq> set raw \<and> length b = min 10 (card (set raw)))"
proof (intro conjI)
  show "map fst (extract_legal_entities ord nlp text)
       = [''PERSONS'', ''ORGANIZATIONS'', ''DATES'', ''MONETARY'', ''LEGAL_TERMS'']"
    by (rule extract_legal_entities_keys)
next
  show "\<forall>(key, b) \<in> set (extract_legal_entities ord nlp text). distinct b \<and> length b \<le> 10"
  proof (clarify, intro conjI)
    fix key b
    assume "(key, b) \<in> set (extract_legal_entities ord nlp text)"
    then obtain raw where b: "b = take 10 (ord raw)"
      by (auto simp: extract_legal_entities_def)
    show "distinct b" unfolding b by (rule capped_bucket(1) [OF assms])
    show "length b \<le> 10" unfolding b by (rule capped_bucket(2) [OF assms])
  qed
next
  show "\<forall>(key, raw) \<in> set (collect_entities ord nlp text).
          \<exists>b. bucket (extract_legal_entities ord nlp text) key = Some b
             \<and> set b \<subseteq> set raw \<and> length b = min 10 (card (set raw))"
  proof (clarify)
    fix key raw
    assume "(key, raw) \<in> set (collect_entities ord nlp text)"
    moreover have "distinct (map fst (collect_entities ord nlp text))"
      by (rule collect_entities_keys_distinct)
    ultimately have "map_of (collect_entities ord nlp text) key = Some raw"
      by simp
    then have "bucket (extract_legal_entities ord nlp text) key = Some (take 10 (ord raw))"
      by (simp add: bucket_def extract_legal_entities_def map_of_map)
    with capped_bucket(3,4) [OF assms, of raw]
    show "\<exists>b. bucket (extract_legal_entities ord nlp text) key = Some b
             \<and> set b \<subseteq> set raw \<and> length b = min 10 (card (set raw))"
      by blast
  qed
qed

theorem entity_buckets_capped_witness:
  "extract_legal_entities remdups words_nlp
      ''Anna met Bob and Anna and Carl Dora Emil Fred Gina Hugo Ines Jan Kurt Lena''
     = [(''PERSONS'', [''Bob'', ''Anna'', ''Carl'', ''Dora'', ''Emil'', ''Fred'', ''Gina'', ''Hugo'',
                      ''Ines'', ''Jan'']),
        (''ORGANIZATIONS'', []), (''DATES'', []), (''MONETARY'', []), (''LEGAL_TERMS'', [])]
   \<and> distinct [''Bob'', ''Anna'', ''Carl'', ''Dora'', ''Emil'', ''Fred'', ''Gina'', ''Hugo'',
                 ''Ines'', ''Jan'']
   \<and> length [''Bob'', ''Anna'', ''Carl'', ''Dora'', ''Emil'', ''Fred'', ''Gina'', ''Hugo'',
                ''Ines'', ''Jan''] \<le> 10"
proof -
  have a: "extract_legal_entities remdups words_nlp
      ''Anna met Bob and Anna and Carl Dora Emil Fred Gina Hugo Ines Jan Kurt Lena''
     = [(''PERSONS'', [''Bob'', ''Anna'', ''Carl'', ''Dora'', ''Emil'', ''Fred'', ''Gina'', ''Hugo'',
                      ''Ines'', ''Jan'']),
        (''ORGANIZATIONS'', []), (''DATES'', []), (''MONETARY'', []), (''LEGAL_TERMS'', [])]"
    by code_simp
  from entity_buckets_capped [OF set_order_remdups, of words_nlp
      "''Anna met Bob and Anna and Carl Dora Emil Fred Gina Hugo Ines Jan Kurt Lena''"]
  have "\<forall>(key, b) \<in> set (extract_legal_entities remdups words_nlp
      ''Anna met Bob and Anna and Carl Dora Emil Fred Gina Hugo Ines Jan Kurt Lena'').
        distinct b \<and> length b \<le> 10"
    by (elim conjE)
  then have "distinct [''Bob'', ''Anna'', ''Carl'', ''Dora'', ''Emil'', ''Fred'', ''Gina'', ''Hugo'',
                 ''Ines'', ''Jan'']
   \<and> length [''Bob'', ''Anna'', ''Carl'', ''Dora'', ''Emil'', ''Fred'', ''Gina'', ''Hugo'',
                ''Ines'', ''Jan''] \<le> 10"
    unfolding a by (simp only: list.set ball_simps prod.case simp_thms)
  with a show ?thesis by (intro conjI) (simp_all only:)
qed

section \<open>Entity recognizer: the example text\<close>

lemma findall_from_nomatch:
  "rmatch p ic (b, c # cs) = [] \<Longrightarrow> findall_from ic p b (c # cs) = findall_from ic p (c # b) cs"
  by (subst findall_from.simps) simp

lemma findall_from_end:
  "rmatch p ic (b, []) = [] \<Longrightarrow> findall_from ic p b [] = []"
  by (subst findall_from.simps) simp

lemma findall_from_match:
  "rmatch p ic (b, r) = (b', r') # ms \<Longrightarrow> length r' < length r \<Longrightarrow>
     findall_from ic p b r = rev (take (length b' - length b) b') # findall_from ic p b' r'"
  by (subst findall_from.simps) simp

lemma rep_n_numeral:
  "rep_n lo (numeral k) f st =
     concat (map (rep_n (lo - 1) (pred_numeral k) f) (f st)) @ (if lo = 0 then [st] else [])"
  by (simp add: numeral_eq_Suc)

lemma is_digit_word: "is_digit c \<Longrightarrow> is_word c"
  by (simp add: is_digit_def is_word_def Let_def)

lemma date_no_digit: "\<not> is_digit c \<Longrightarrow> rmatch date_pattern False (b, c # cs) = []"
  by (simp add: date_pattern_def step_if_def rep_n_numeral)

lemma date_at_end: "rmatch date_pattern False (b, []) = []"
  by (simp add: date_pattern_def step_if_def rep_n_numeral)

lemma date_inside_word:
  assumes "is_word p"
  shows "rmatch date_pattern False (p # b, r) = []"
proof (cases r)
  case Nil
  then show ?thesis by (simp add: date_at_end)
next
  case (Cons c cs)
  show ?thesis
  proof (cases "is_digit c")
    case True
    then have "is_word c" by (rule is_digit_word)
    with assms show ?thesis
      by (simp add: Cons date_pattern_def at_boundary_def)
  next
    case False
    then show ?thesis by (simp add: Cons date_no_digit)
  qed
qed

lemma date_skip:
  "\<not> is_digit c \<Longrightarrow>
     findall_from False date_pattern b (c # cs) = findall_from False date_pattern (c # b) cs"
  by (rule findall_from_nomatch) (rule date_no_digit)

lemma date_skip_inside:
  "is_word p \<Longrightarrow>
     findall_from False date_pattern (p # b) (c # cs) = findall_from False date_pattern (c # p # b) cs"
  by (rule findall_from_nomatch) (rule date_inside_word)

lemma date_stop: "findall_from False date_pattern b [] = []"
  by (rule findall_from_end) (rule date_at_end)
lemma findall_from_nomatch_app:
  "rmatch p ic (b, c # cs @ rest) = [] \<Longrightarrow>
     findall_from ic p b ((c # cs) @ rest) = findall_from ic p (c # b) (cs @ rest)"
  by (simp add: findall_from_nomatch)

lemma date_hit:
  "\<not> is_word p \<Longrightarrow>
     findall_from False date_pattern (p # b) (''01/02/2020 '' @ rest)
       = ''01/02/2020'' # findall_from False date_pattern (rev ''01/02/2020'' @ p # b) (CHR '' '' # rest)"
  by (subst findall_from.simps)
     (simp add: date_pattern_def step_if_def rep_n_numeral at_boundary_def is_digit_def is_word_def
        code_point_def)

lemma date_miss_500:
  "\<not> is_word p \<Longrightarrow>
     findall_from False date_pattern (p # b) (''500.'' @ rest)
       = findall_from False date_pattern (CHR ''5'' # p # b) (''00.'' @ rest)"
  by (subst findall_from.simps)
     (simp add: date_pattern_def step_if_def rep_n_numeral at_boundary_def is_digit_def is_word_def
        code_point_def)

lemma date_miss_00:
  "\<not> is_word p \<Longrightarrow>
     findall_from False date_pattern (p # b) (''00.'' @ rest)
       = findall_from False date_pattern (CHR ''0'' # p # b) (''0.'' @ rest)"
  by (subst findall_from.simps)
     (simp add: date_pattern_def step_if_def rep_n_numeral at_boundary_def is_digit_def is_word_def
        code_point_def)

lemma date_example: "findall False date_pattern example_text = [''01/02/2020'']"
  by (simp add: findall_def example_text_def date_skip date_skip_inside date_stop
       date_hit [simplified] date_miss_500 [simplified] date_miss_00 [simplified]
       is_digit_def is_word_def code_point_def)
lemma lower_char_facts:
  "lower_char (CHR ''0'') = CHR ''0''"
  "lower_char (CHR ''1'') = CHR ''1''"
  "lower_char (CHR ''2'') = CHR ''2''"
  "lower_char (CHR ''5'') = CHR ''5''"
  "lower_char (CHR ''/'') = CHR ''/''"
  "lower_char (CHR '' '') = CHR '' ''"
  "lower_char (CHR ''.'') = CHR ''.''"
  "lower_char (CHR ''f'') = CHR ''f''"
  "lower_char (CHR ''$'') = CHR ''$''"
  "lower_char (CHR '','') = CHR '',''"
  "lower_char (CHR ''U'') = CHR ''u''"
  "lower_char (CHR ''S'') = CHR ''s''"
  "lower_char (CHR ''D'') = CHR ''d''"
  "lower_char (CHR ''d'') = CHR ''d''"
  "lower_char (CHR ''o'') = CHR ''o''"
  "lower_char (CHR ''l'') = CHR ''l''"
  "lower_char (CHR ''a'') = CHR ''a''"
  "lower_char (CHR ''r'') = CHR ''r''"
  "lower_char (CHR ''s'') = CHR ''s''"
  "lower_char (CHR ''c'') = CHR ''c''"
  "lower_char (CHR ''e'') = CHR ''e''"
  "lower_char (CHR ''n'') = CHR ''n''"
  "lower_char (CHR ''t'') = CHR ''t''"
  by code_simp+

lemma lower_char_upper:
  assumes "(65 \<le> code_point c \<and> code_point c \<le> 90)
        \<or> (192 \<le> code_point c \<and> code_point c \<le> 222 \<and> code_point c \<noteq> 215)"
  shows "code_point (lower_char c) = code_point c + 32"
proof -
  have "lower_char c = char_of (code_point c + 32)"
    unfolding lower_char_def Let_def using assms by (simp only: if_True)
  then have "code_point (lower_char c) = (code_point c + 32) mod 256"
    by (simp add: code_point_def)
  moreover from assms have "code_point c + 32 < 256"
    by linarith
  ultimately show ?thesis
    by simp
qed

lemma lower_char_other:
  assumes "\<not> ((65 \<le> code_point c \<and> code_point c \<le> 90)
        \<or> (192 \<le> code_point c \<and> code_point c \<le> 222 \<and> code_point c \<noteq> 215))"
  shows "lower_char c = c"
  unfolding lower_char_def Let_def using assms by (simp only: if_False)

lemma lower_char_dollar: "lower_char c = CHR ''$'' \<longleftrightarrow> c = CHR ''$''"
proof
  assume a: "lower_char c = CHR ''$''"
  show "c = CHR ''$''"
  proof (cases "(65 \<le> code_point c \<and> code_point c \<le> 90)
        \<or> (192 \<le> code_point c \<and> code_point c \<le> 222 \<and> code_point c \<noteq> 215)")
    case True
    then have "code_point (lower_char c) = code_point c + 32"
      by (rule lower_char_upper)
    moreover have "code_point (lower_char c) = 36"
      unfolding a by (simp add: code_point_def)
    ultimately have "code_point c + 32 = 36" by simp
    with True show ?thesis by linarith
  next
    case False
    then have "lower_char c = c" by (rule lower_char_other)
    with a show ?thesis by simp
  qed
next
  assume "c = CHR ''$''"
  then show "lower_char c = CHR ''$''"
    by (simp add: lower_char_facts)
qed

lemma money_no_start:
  "\<not> is_digit c \<Longrightarrow> c \<noteq> CHR ''$'' \<Longrightarrow> rmatch money_pattern True (b, c # cs) = []"
  by (simp add: money_pattern_def step_if_def lower_char_facts lower_char_dollar)

lemma money_at_end: "rmatch money_pattern True (b, []) = []"
  by (simp add: money_pattern_def step_if_def)

lemma money_skip:
  "\<not> is_digit c \<Longrightarrow> c \<noteq> CHR ''$'' \<Longrightarrow>
     findall_from True money_pattern b (c # cs) = findall_from True money_pattern (c # b) cs"
  by (rule findall_from_nomatch) (rule money_no_start)

lemma money_stop: "findall_from True money_pattern b [] = []"
  by (rule findall_from_end) (rule money_at_end)

lemma money_miss_1:
  "findall_from True money_pattern b (''01/'' @ rest)
     = findall_from True money_pattern (CHR ''0'' # b) (''1/'' @ rest)"
  by (subst findall_from.simps)
     (simp add: money_pattern_def word_def step_if_def rep_n_numeral lower_char_facts is_digit_def is_space_def
        code_point_def)

lemma money_miss_2:
  "findall_from True money_pattern b (''1/'' @ rest)
     = findall_from True money_pattern (CHR ''1'' # b) (''/'' @ rest)"
  by (subst findall_from.simps)
     (simp add: money_pattern_def word_def step_if_def rep_n_numeral lower_char_facts is_digit_def is_space_def
        code_point_def)

lemma money_miss_3:
  "findall_from True money_pattern b (''02/'' @ rest)
     = findall_from True money_pattern (CHR ''0'' # b) (''2/'' @ rest)"
  by (subst findall_from.simps)
     (simp add: money_pattern_def word_def step_if_def rep_n_numeral lower_char_facts is_digit_def is_space_def
        code_point_def)

lemma money_miss_4:
  "findall_from True money_pattern b (''2/'' @ rest)
     = findall_from True money_pattern (CHR ''2'' # b) (''/'' @ rest)"
  by (subst findall_from.simps)
     (simp add: money_pattern_def word_def step_if_def rep_n_numeral lower_char_facts is_digit_def is_space_def
        code_point_def)

lemma money_miss_5:
  "findall_from True money_pattern b (''2020 f'' @ rest)
     = findall_from True money_pattern (CHR ''2'' # b) (''020 f'' @ rest)"
  by (subst findall_from.simps)
     (simp add: money_pattern_def word_def step_if_def rep_n_numeral lower_char_facts is_digit_def is_space_def
        code_point_def)

lemma money_miss_6:
  "findall_from True money_pattern b (''020 f'' @ rest)
     = findall_from True money_pattern (CHR ''0'' # b) (''20 f'' @ rest)"
  by (subst findall_from.simps)
     (simp add: money_pattern_def word_def step_if_def rep_n_numeral lower_char_facts is_digit_def is_space_def
        code_point_def)

lemma money_miss_7:
  "findall_from True money_pattern b (''20 f'' @ rest)
     = findall_from True money_pattern (CHR ''2'' # b) (''0 f'' @ rest)"
  by (subst findall_from.simps)
     (simp add: money_pattern_def word_def step_if_def rep_n_numeral lower_char_facts is_digit_def is_space_def
        code_point_def)

lemma money_miss_8:
  "findall_from True money_pattern b (''0 f'' @ rest)
     = findall_from True money_pattern (CHR ''0'' # b) ('' f'' @ rest)"
  by (subst findall_from.simps)
     (simp add: money_pattern_def word_def step_if_def rep_n_numeral lower_char_facts is_digit_def is_space_def
        code_point_def)

lemma money_hit:
  "findall_from True money_pattern b (''$500.00.'' @ rest)
     = ''$500.00'' # findall_from True money_pattern (rev ''$500.00'' @ b) (CHR ''.'' # rest)"
  by (subst findall_from.simps)
     (simp add: money_pattern_def word_def step_if_def rep_n_numeral lower_char_facts is_digit_def is_space_def
        code_point_def)

lemma money_example: "findall True money_pattern example_text = [''$500.00'']"
  by (simp add: findall_def example_text_def money_skip money_stop
       money_miss_1 [simplified] money_miss_2 [simplified] money_miss_3 [simplified] money_miss_4 [simplified] money_miss_5 [simplified] money_miss_6 [simplified] money_miss_7 [simplified] money_miss_8 [simplified]
       money_hit [simplified] is_digit_def code_point_def)
lemma set_order_single:
  assumes "set_order ord"
  shows "ord [x] = [x]"
proof -
  have d: "distinct (ord [x])" by (rule set_order_distinct [OF assms])
  have s: "set (ord [x]) = {x}" using set_order_set [OF assms, of "[x]"] by simp
  from distinct_card [OF d] s have "length (ord [x]) = 1" by simp
  then obtain y where y: "ord [x] = [y]"
    by (cases "ord [x]") auto
  with s show ?thesis by simp
qed

lemma set_order_short:
  assumes "set_order ord" and "length xs \<le> 10"
  shows "take 10 (ord xs) = ord xs"
proof -
  have "length (ord xs) = card (set xs)"
    using distinct_card [OF set_order_distinct [OF assms(1), of xs]] set_order_set [OF assms(1), of xs]
    by simp
  also have "\<dots> \<le> length xs" by (rule card_length)
  finally show ?thesis using assms(2) by simp
qed

lemma example_legal_terms:
  "filter (\<lambda>term. sublist term (py_lower example_text)) legal_terms
     = [''contract'', ''liability'', ''termination'', ''jurisdiction'', ''governing law'']"
  by code_simp

lemma example_collect:
  assumes "set_order ord"
  shows "collect_entities ord None example_text
     = [(''PERSONS'', []), (''ORGANIZATIONS'', []), (''DATES'', [''01/02/2020'']),
        (''MONETARY'', [''$500.00'']),
        (''LEGAL_TERMS'', [''contract'', ''liability'', ''termination'', ''jurisdiction'', ''governing law''])]"
  by (simp add: collect_entities_def empty_entities_def date_example money_example
        example_legal_terms set_order_single [OF assms])

lemma example_extract:
  assumes "set_order ord"
  shows "extract_legal_entities ord None example_text
     = [(''PERSONS'', []), (''ORGANIZATIONS'', []), (''DATES'', [''01/02/2020'']),
        (''MONETARY'', [''$500.00'']),
        (''LEGAL_TERMS'', ord [''contract'', ''liability'', ''termination'', ''jurisdiction'', ''governing law''])]"
proof -
  have "take 10 (ord [''contract'', ''liability'', ''termination'', ''jurisdiction'', ''governing law''])
      = ord [''contract'', ''liability'', ''termination'', ''jurisdiction'', ''governing law'']"
    by (rule set_order_short [OF assms]) simp
  then show ?thesis
    by (simp add: extract_legal_entities_def example_collect [OF assms] set_order_single [OF assms]
          set_order_Nil [OF assms])
qed

text \<open>
  Claim C1, as amended. In fallback mode the entity map of the example text has the
  DATES bucket \<open>01/02/2020\<close>, the MONETARY bucket \<open>$500.00\<close>, and a LEGAL_TERMS bucket
  that holds exactly ``contract'', ``liability'', ``termination'', ``jurisdiction'' and
  ``governing law''. The word ``confidential'' is not one of the eight legal terms and is
  not in the bucket.
\<close>

theorem example_entities:
  assumes "set_order ord"
  shows "bucket (extract_legal_entities ord None example_text) ''DATES'' = Some [''01/02/2020'']
    \<and> bucket (extract_legal_entities ord None example_text) ''MONETARY'' = Some [''$500.00'']
    \<and> (\<exists>b. bucket (extract_legal_entities ord None example_text) ''LEGAL_TERMS'' = Some b
           \<and> set b = {''contract'', ''liability'', ''termination'', ''jurisdiction'', ''governing law''}
           \<and> ''confidential'' \<notin> set b)
    \<and> ''confidential'' \<notin> set legal_terms"
proof (intro conjI)
  show "bucket (extract_legal_entities ord None example_text) ''DATES'' = Some [''01/02/2020'']"
    by (simp add: bucket_def example_extract [OF assms])
  show "bucket (extract_legal_entities ord None example_text) ''MONETARY'' = Some [''$500.00'']"
    by (simp add: bucket_def example_extract [OF assms])
  have "bucket (extract_legal_entities ord None example_text) ''LEGAL_TERMS''
      = Some (ord [''contract'', ''liability'', ''termination'', ''jurisdiction'', ''governing law''])"
    by (simp add: bucket_def example_extract [OF assms])
  moreover have s: "set (ord [''contract'', ''liability'', ''termination'', ''jurisdiction'', ''governing law''])
      = {''contract'', ''liability'', ''termination'', ''jurisdiction'', ''governing law''}"
    using set_order_set [OF assms, of "[''contract'', ''liability'', ''termination'', ''jurisdiction'', ''governing law'']"]
    by simp
  moreover have "''confidential'' \<notin> set (ord [''contract'', ''liability'', ''termination'', ''jurisdiction'', ''governing law''])"
    unfolding s by simp
  ultimately show "\<exists>b. bucket (extract_legal_entities ord None example_text) ''LEGAL_TERMS'' = Some b
           \<and> set b = {''contract'', ''liability'', ''termination'', ''jurisdiction'', ''governing law''}
           \<and> ''confidential'' \<notin> set b"
    by blast
  show "''confidential'' \<notin> set legal_terms"
    by (simp add: legal_terms_def)
qed

theorem example_entities_witness:
  "bucket (extract_legal_entities remdups None example_text) ''DATES'' = Some [''01/02/2020'']
   \<and> bucket (extract_legal_entities remdups None example_text) ''MONETARY'' = Some [''$500.00'']"
  using example_entities [OF set_order_remdups] by (elim conjE) (intro conjI)

text \<open>
  The claim as stated fails: the LEGAL_TERMS bucket of the example text does not hold
  ``confidential''.
\<close>

theorem example_entities_counterexample:
  "bucket (extract_legal_entities remdups None example_text) ''LEGAL_TERMS''
     = Some [''contract'', ''liability'', ''termination'', ''jurisdiction'', ''governing law'']
   \<and> ''confidential'' \<notin> set [''contract'', ''liability'', ''termination'', ''jurisdiction'', ''governing law'']"
  by (simp add: bucket_def example_extract [OF set_order_remdups])

section \<open>Neither pattern matches the empty string\<close>

lemma step_if_shorter:
  "st' \<in> set (step_if P st) \<Longrightarrow> length (snd st') < length (snd st)"
  by (cases "snd st") (auto simp: step_if_def split: if_splits)

lemma rep_n_not_longer:
  assumes "\<And>st st'. st' \<in> set (f st) \<Longrightarrow> length (snd st') \<le> length (snd st)"
  shows "st' \<in> set (rep_n lo hi f st) \<Longrightarrow> length (snd st') \<le> length (snd st)"
proof (induction hi arbitrary: lo st)
  case 0
  then show ?case by (simp split: if_splits)
next
  case (Suc hi)
  from Suc.prems consider (more) st1 where "st1 \<in> set (f st)" "st' \<in> set (rep_n (lo - 1) hi f st1)"
    | (stop) "st' = st"
    by (auto split: if_splits)
  then show ?case
  proof cases
    case more
    from Suc.IH [OF more(2)] assms [OF more(1)] show ?thesis by linarith
  next
    case stop
    then show ?thesis by simp
  qed
qed

lemma rmatch_not_longer:
  "st' \<in> set (rmatch p ic st) \<Longrightarrow> length (snd st') \<le> length (snd st)"
proof (induction p arbitrary: st st')
  case (Lit c)
  then show ?case using step_if_shorter [of st' _ st] by fastforce
next
  case Digit
  then show ?case using step_if_shorter [of st' _ st] by fastforce
next
  case Space
  then show ?case using step_if_shorter [of st' _ st] by fastforce
next
  case (OneOf cs)
  then show ?case using step_if_shorter [of st' _ st] by fastforce
next
  case WordB
  then show ?case by (simp split: if_splits)
next
  case (Seq p q)
  from Seq.prems obtain st1 where "st1 \<in> set (rmatch p ic st)" "st' \<in> set (rmatch q ic st1)"
    by auto
  with Seq.IH show ?case by (meson le_trans)
next
  case (Alt p q)
  from Alt.prems have "st' \<in> set (rmatch p ic st) \<or> st' \<in> set (rmatch q ic st)"
    by simp
  with Alt.IH show ?case by blast
next
  case (Rep lo hi p)
  from Rep.prems have "st' \<in> set (rep_n lo hi (rmatch p ic) st)" by simp
  then show ?case by (rule rep_n_not_longer [rotated]) (rule Rep.IH)
next
  case (RepInf lo p)
  from RepInf.prems have "st' \<in> set (rep_n lo (length (snd st)) (rmatch p ic) st)" by simp
  then show ?case by (rule rep_n_not_longer [rotated]) (rule RepInf.IH)
qed



lemma rep_n_shorter:
  assumes "\<And>st st'. st' \<in> set (f st) \<Longrightarrow> length (snd st') < length (snd st)"
    and "0 < lo" and "st' \<in> set (rep_n lo hi f st)"
  shows "length (snd st') < length (snd st)"
proof (cases hi)
  case 0
  with assms(2,3) show ?thesis by simp
next
  case (Suc k)
  with assms(2,3) obtain st1 where 1: "st1 \<in> set (f st)" and 2: "st' \<in> set (rep_n (lo - 1) k f st1)"
    by auto
  have "length (snd st') \<le> length (snd st1)"
    by (rule rep_n_not_longer [OF _ 2]) (rule less_imp_le, rule assms(1))
  with assms(1) [OF 1] show ?thesis by linarith
qed

lemma rmatch_consuming:
  "consuming p \<Longrightarrow> st' \<in> set (rmatch p ic st) \<Longrightarrow> length (snd st') < length (snd st)"
proof (induction p arbitrary: st st')
  case (Lit c)
  then show ?case using step_if_shorter [of st' _ st] by fastforce
next
  case Digit
  then show ?case using step_if_shorter [of st' _ st] by fastforce
next
  case Space
  then show ?case using step_if_shorter [of st' _ st] by fastforce
next
  case (OneOf cs)
  then show ?case using step_if_shorter [of st' _ st] by fastforce
next
  case WordB
  then show ?case by simp
next
  case (Seq p q)
  from Seq.prems(2) obtain st1 where 1: "st1 \<in> set (rmatch p ic st)" and 2: "st' \<in> set (rmatch q ic st1)"
    by auto
  from Seq.prems(1) have "consuming p \<or> consuming q" by simp
  then show ?case
  proof
    assume "consuming p"
    from Seq.IH(1) [OF this 1] rmatch_not_longer [OF 2] show ?thesis by linarith
  next
    assume "consuming q"
    from Seq.IH(2) [OF this 2] rmatch_not_longer [OF 1] show ?thesis by linarith
  qed
next
  case (Alt p q)
  from Alt.prems have c: "consuming p" "consuming q"
    and "st' \<in> set (rmatch p ic st) \<or> st' \<in> set (rmatch q ic st)"
    by simp_all
  with Alt.IH show ?case by blast
next
  case (Rep lo hi p)
  from Rep.prems have c: "consuming p" and lo: "0 < lo"
    and m: "st' \<in> set (rep_n lo hi (rmatch p ic) st)" by simp_all
  show ?case by (rule rep_n_shorter [OF _ lo m]) (rule Rep.IH [OF c])
next
  case (RepInf lo p)
  from RepInf.prems have c: "consuming p" and lo: "0 < lo"
    and m: "st' \<in> set (rep_n lo (length (snd st)) (rmatch p ic) st)" by simp_all
  show ?case by (rule rep_n_shorter [OF _ lo m]) (rule RepInf.IH [OF c])
qed

lemma patterns_consuming: "consuming date_pattern" "consuming money_pattern"
  by (simp_all add: date_pattern_def money_pattern_def)

lemma findall_from_consuming:
  assumes "consuming p"
  shows "findall_from ic p b r =
     (case rmatch p ic (b, r) of
        [] \<Rightarrow> (case r of [] \<Rightarrow> [] | c # cs \<Rightarrow> findall_from ic p (c # b) cs)
      | (b', r') # _ \<Rightarrow> rev (take (length b' - length b) b') # findall_from ic p b' r')"
proof (cases "rmatch p ic (b, r)")
  case Nil
  then show ?thesis by (subst findall_from.simps) simp
next
  case (Cons m ms)
  obtain b' r' where m: "m = (b', r')" by (cases m)
  have "(b', r') \<in> set (rmatch p ic (b, r))" by (simp add: Cons m)
  from rmatch_consuming [OF assms this] have "length r' < length r" by simp
  then show ?thesis by (subst findall_from.simps) (simp add: Cons m)
qed

end
